theory Spec2Isabelle
  imports Main "HOL-Library.Word" "HOL-Library.Monad_Syntax"
begin

section \<open>The sample-operator dispatch layer of min-api\<close>

text \<open>
  This theory embeds \<^verbatim>\<open>src/include/c74_min_operator_sample.h\<close>: the class template
  \<^verbatim>\<open>sample_operator<input_count, output_count>\<close>, the two specialisations of
  \<^verbatim>\<open>min_performer<T>::perform\<close>, the helper \<^verbatim>\<open>callable_samples\<close> with the index
  sequence \<^verbatim>\<open>detail::gen_seq\<close>, and the two overloads of \<^verbatim>\<open>perform_copy_output\<close>.

  Conventions of the embedding.
  \<^item> A \<^verbatim>\<open>sample\<close> (a \<^verbatim>\<open>double\<close>) is a value of an arbitrary type \<open>'a\<close>: the layer only
    copies samples, it never computes with them. Two samples are equal when they are
    the same value.
  \<^item> \<^verbatim>\<open>int\<close> is 32 bits wide and \<^verbatim>\<open>size_t\<close> 64 bits. The frame count, a \<^verbatim>\<open>long\<close>, is
    given by its value, an \<open>int\<close> of HOL.
  \<^item> A \<^verbatim>\<open>double*\<close> channel pointer is a reference into an explicit memory that maps
    references to sample buffers, so that two channel pointers can name the same
    buffer. \<^verbatim>\<open>double**\<close> is a list of such references.
  \<^item> Behaviour that C++ leaves undefined (an index outside an array, a pointer to no
    buffer, a slot of the bundle read before it is set, overflow of an \<^verbatim>\<open>int\<close>
    counter) is the result \<open>None\<close>.
  \<^item> The object \<^verbatim>\<open>self->obj\<close> is a state of type \<open>'s\<close>; \<^verbatim>\<open>calculate\<close> takes it and
    returns it updated. \<^verbatim>\<open>calculate\<close> sees its arguments and its object only, not the
    sample buffers.
  \<^item> The machine state carries a trace, a ghost list of the accesses to sample buffers
    and of the calls of \<^verbatim>\<open>calculate\<close>, in program order.
  The parameters \<^verbatim>\<open>dsp64\<close>, \<^verbatim>\<open>numins\<close>, \<^verbatim>\<open>numouts\<close>, \<^verbatim>\<open>flags\<close> and \<^verbatim>\<open>userparam\<close> of
  \<^verbatim>\<open>perform\<close> are never used by the code and are left out.
\<close>

subsection \<open>Channel-arity descriptor\<close>

text \<open>The two template arguments of \<^verbatim>\<open>sample_operator\<close> are of type \<^verbatim>\<open>int\<close>.\<close>

record sample_operator =
  input_count :: "32 word"
  output_count :: "32 word"

type_synonym size_t = "64 word"

text \<open>
  \<^verbatim>\<open>static constexpr size_t m_inputcount = input_count;\<close> converts the \<^verbatim>\<open>int\<close> to
  \<^verbatim>\<open>size_t\<close>: the value modulo \<open>2 ^ 64\<close>, which is sign extension.
\<close>

definition m_inputcount :: "sample_operator \<Rightarrow> size_t" where
  "m_inputcount d = scast (input_count d)"

definition m_outputcount :: "sample_operator \<Rightarrow> size_t" where
  "m_outputcount d = scast (output_count d)"

definition inputcount :: "sample_operator \<Rightarrow> size_t" where
  "inputcount d = m_inputcount d"

definition outputcount :: "sample_operator \<Rightarrow> size_t" where
  "outputcount d = m_outputcount d"

subsection \<open>Memory, machine state and trace\<close>

type_synonym bufref = nat

type_synonym 'a memory = "bufref \<rightharpoonup> 'a list"

datatype 'a event =
  InRead nat nat
  | Calculate nat "'a list"
  | OutWrite nat nat

text \<open>
  \<open>InRead chan i\<close> is a read of \<^verbatim>\<open>in_chans[chan][i]\<close>, \<open>OutWrite chan i\<close> a write of
  \<^verbatim>\<open>out_chans[chan][i]\<close>, and \<open>Calculate i args\<close> the call of \<^verbatim>\<open>calculate\<close> in frame
  \<open>i\<close> with the arguments \<open>args\<close>.
\<close>

record ('a, 's) machine =
  mem :: "'a memory"
  obj :: 's
  trace :: "'a event list"

text \<open>\<^verbatim>\<open>chans[chan]\<close>, the read of a channel pointer.\<close>

definition channel :: "bufref list \<Rightarrow> nat \<Rightarrow> bufref option" where
  "channel chans chan = (if chan < length chans then Some (chans ! chan) else None)"

text \<open>\<^verbatim>\<open>p[i]\<close> as an rvalue, and \<^verbatim>\<open>p[i] = v\<close>.\<close>

definition read_sample :: "bufref \<Rightarrow> nat \<Rightarrow> 'a memory \<Rightarrow> 'a option" where
  "read_sample p i h =
     (case h p of
        None \<Rightarrow> None
      | Some buf \<Rightarrow> if i < length buf then Some (buf ! i) else None)"

definition write_sample :: "bufref \<Rightarrow> nat \<Rightarrow> 'a \<Rightarrow> 'a memory \<Rightarrow> 'a memory option" where
  "write_sample p i v h =
     (case h p of
        None \<Rightarrow> None
      | Some buf \<Rightarrow> if i < length buf then Some (h(p \<mapsto> buf[i := v])) else None)"

subsection \<open>Counted loops\<close>

definition INT_MAX :: int where
  "INT_MAX = 2 ^ 31 - 1"

text \<open>
  Every loop of the file has the form \<^verbatim>\<open>for (auto i=0; i<bound; ++i) body\<close>. The counter
  is an \<^verbatim>\<open>int\<close> that starts at 0, so it is never negative; the bound is a \<^verbatim>\<open>long\<close> or a
  \<^verbatim>\<open>size_t\<close>, given here by its value, and the comparison converts the counter to the
  type of the bound without changing its value. \<^verbatim>\<open>++i\<close> at \<^verbatim>\<open>INT_MAX\<close> is signed
  overflow.
\<close>

function for_int :: "int \<Rightarrow> nat \<Rightarrow> (nat \<Rightarrow> 'st \<Rightarrow> 'st option) \<Rightarrow> 'st \<Rightarrow> 'st option" where
  "for_int bound i body st =
     (if int i < bound then
        (case body i st of
           None \<Rightarrow> None
         | Some st' \<Rightarrow> if int i = INT_MAX then None else for_int bound (Suc i) body st')
      else Some st)"
  by pat_completeness auto
termination
  by (relation "measure (\<lambda>(bound, i, body, st). nat (bound - int i))") auto

declare for_int.simps [simp del]

subsection \<open>The specialisation for one input and one output\<close>

text \<open>
  \<^verbatim>\<open>min_performer<T, enable_if<is_base_of<sample_operator<1,1>, T>>>::perform\<close>.
  Here \<^verbatim>\<open>calculate\<close> takes one sample and its result is assigned to a \<^verbatim>\<open>double\<close>.
\<close>

definition perform_1x1 ::
  "('s \<Rightarrow> 'a \<Rightarrow> 'a \<times> 's) \<Rightarrow> bufref list \<Rightarrow> bufref list \<Rightarrow> int \<Rightarrow>
    ('a, 's) machine \<Rightarrow> ('a, 's) machine option" where
  "perform_1x1 calculate in_chans out_chans sampleframes m0 =
     do {
       in_samps \<leftarrow> channel in_chans 0;
       out_samps \<leftarrow> channel out_chans 0;
       for_int sampleframes 0 (\<lambda>i m.
         do {
           in1 \<leftarrow> read_sample in_samps i (mem m);
           let m = m\<lparr>trace := trace m @ [InRead 0 i]\<rparr>;
           let (out, s) = calculate (obj m) in1;
           let m = m\<lparr>obj := s, trace := trace m @ [Calculate i [in1]]\<rparr>;
           h \<leftarrow> write_sample out_samps i out (mem m);
           Some (m\<lparr>mem := h, trace := trace m @ [OutWrite 0 i]\<rparr>)
         }) m0
     }"

subsection \<open>The bundle and the expansion of its slots into arguments\<close>

text \<open>
  \<^verbatim>\<open>gen_seq<N, Is...>\<close> derives from \<^verbatim>\<open>gen_seq<N - 1, N - 1, Is...>\<close> and
  \<^verbatim>\<open>gen_seq<0, Is...>\<close> from \<^verbatim>\<open>seq<Is...>\<close>.
\<close>

fun gen_seq :: "nat \<Rightarrow> nat list \<Rightarrow> nat list" where
  "gen_seq 0 Is = Is"
| "gen_seq (Suc n) Is = gen_seq n (n # Is)"

text \<open>
  \<^verbatim>\<open>callable_samples<T, count>\<close> holds \<^verbatim>\<open>samples<count> data\<close>, an array that the
  constructor does not initialise: a slot is \<open>None\<close> until \<^verbatim>\<open>set\<close> has stored into it.
\<close>

definition callable_samples :: "nat \<Rightarrow> 'a option list" where
  "callable_samples count = replicate count None"

definition set_sample :: "'a option list \<Rightarrow> nat \<Rightarrow> 'a \<Rightarrow> 'a option list option" where
  "set_sample data index v =
     (if index < length data then Some (data[index := Some v]) else None)"

definition slot :: "'a option list \<Rightarrow> nat \<Rightarrow> 'a option" where
  "slot data index = (if index < length data then data ! index else None)"

text \<open>
  \<^verbatim>\<open>call()\<close> is \<^verbatim>\<open>call(detail::gen_seq<count>())\<close>, which is
  \<^verbatim>\<open>self->obj.calculate(data[Is]...)\<close>: the arguments of \<^verbatim>\<open>calculate\<close> are the slots at
  the indices of the sequence, in the order of the sequence.
\<close>

definition call_seq :: "'a option list \<Rightarrow> nat list \<Rightarrow> 'a list option" where
  "call_seq data Is = those (map (slot data) Is)"

definition call :: "nat \<Rightarrow> 'a option list \<Rightarrow> 'a list option" where
  "call count data = call_seq data (gen_seq count [])"

subsection \<open>Copying the result of calculate to the output channels\<close>

text \<open>
  \<^verbatim>\<open>calculate\<close> returns either a \<^verbatim>\<open>sample\<close> or an array \<^verbatim>\<open>samples<N>\<close>; overload
  resolution on this type selects \<^verbatim>\<open>perform_copy_output\<close>.
\<close>

datatype 'a calculated =
  Sample 'a
  | Samples "'a list"

definition element :: "'a list \<Rightarrow> nat \<Rightarrow> 'a option" where
  "element vals chan = (if chan < length vals then Some (vals ! chan) else None)"

fun perform_copy_output ::
  "sample_operator \<Rightarrow> nat \<Rightarrow> bufref list \<Rightarrow> 'a calculated \<Rightarrow>
    ('a, 's) machine \<Rightarrow> ('a, 's) machine option" where
  "perform_copy_output d index out_chans (Samples vals) m0 =
     for_int (uint (outputcount d)) 0 (\<lambda>chan m.
       do {
         v \<leftarrow> element vals chan;
         p \<leftarrow> channel out_chans chan;
         h \<leftarrow> write_sample p index v (mem m);
         Some (m\<lparr>mem := h, trace := trace m @ [OutWrite chan index]\<rparr>)
       }) m0"
| "perform_copy_output d index out_chans (Sample val) m0 =
     do {
       p \<leftarrow> channel out_chans 0;
       h \<leftarrow> write_sample p index val (mem m0);
       Some (m0\<lparr>mem := h, trace := trace m0 @ [OutWrite 0 index]\<rparr>)
     }"

subsection \<open>The generic specialisation\<close>

text \<open>
  The body of the frame loop of the generic \<^verbatim>\<open>perform\<close>. \<^verbatim>\<open>callable_samples<T,
  T::inputcount()>\<close> is built afresh in each frame; \<^verbatim>\<open>calculate\<close> takes the list of its
  arguments. (The template argument \<^verbatim>\<open>count\<close> is an \<^verbatim>\<open>int\<close>: for a unit with a negative
  \<^verbatim>\<open>input_count\<close> the conversion of \<^verbatim>\<open>inputcount()\<close> would narrow and the generic
  \<^verbatim>\<open>perform\<close> does not compile.)
\<close>

definition gather ::
  "sample_operator \<Rightarrow> bufref list \<Rightarrow> nat \<Rightarrow> 'a option list \<times> ('a, 's) machine \<Rightarrow>
    ('a option list \<times> ('a, 's) machine) option" where
  "gather d in_chans i =
     for_int (uint (inputcount d)) 0 (\<lambda>chan (ins, m).
       do {
         p \<leftarrow> channel in_chans chan;
         v \<leftarrow> read_sample p i (mem m);
         ins \<leftarrow> set_sample ins chan v;
         Some (ins, m\<lparr>trace := trace m @ [InRead chan i]\<rparr>)
       })"

definition perform_frame ::
  "sample_operator \<Rightarrow> ('s \<Rightarrow> 'a list \<Rightarrow> 'a calculated \<times> 's) \<Rightarrow> bufref list \<Rightarrow>
    bufref list \<Rightarrow> nat \<Rightarrow> ('a, 's) machine \<Rightarrow> ('a, 's) machine option" where
  "perform_frame d calculate in_chans out_chans i m =
     do {
       let ins = callable_samples (unat (inputcount d));
       (ins, m) \<leftarrow> gather d in_chans i (ins, m);
       args \<leftarrow> call (unat (inputcount d)) ins;
       let (out, s) = calculate (obj m) args;
       let m = m\<lparr>obj := s, trace := trace m @ [Calculate i args]\<rparr>;
       perform_copy_output d i out_chans out m
     }"

text \<open>
  \<^verbatim>\<open>min_performer<T, enable_if<is_base_of<sample_operator_base, T> &&
  !is_base_of<sample_operator<1,1>, T>>>::perform\<close>.
\<close>

definition perform_generic ::
  "sample_operator \<Rightarrow> ('s \<Rightarrow> 'a list \<Rightarrow> 'a calculated \<times> 's) \<Rightarrow> bufref list \<Rightarrow>
    bufref list \<Rightarrow> int \<Rightarrow> ('a, 's) machine \<Rightarrow> ('a, 's) machine option" where
  "perform_generic d calculate in_chans out_chans sampleframes m0 =
     for_int sampleframes 0 (perform_frame d calculate in_chans out_chans) m0"

subsection \<open>Blocks, and what a run of perform leaves behind\<close>

text \<open>
  The remaining definitions are not code: they say when a block is well formed and
  describe the state after a frame and after a number of frames.

  \<open>has_frames h p F\<close>: the channel pointer \<open>p\<close> points to a buffer of at least \<open>F\<close>
  samples (with \<open>F \<le> 0\<close> it may point anywhere).
\<close>

definition has_frames :: "'a memory \<Rightarrow> bufref \<Rightarrow> int \<Rightarrow> bool" where
  "has_frames h p F = (case h p of None \<Rightarrow> F \<le> 0 | Some buf \<Rightarrow> F \<le> int (length buf))"

text \<open>
  \<open>block_ok d W in_chans out_chans F h\<close>: the declared input count is not negative, the
  frame count is in the range of the \<^verbatim>\<open>int\<close> loop counter, there are as many input
  pointers as the descriptor has inputs and at least \<open>W\<close> output pointers, and each of
  these points to a buffer of \<open>F\<close> frames. \<open>W\<close> is the number of output channels that
  \<^verbatim>\<open>perform_copy_output\<close> writes.
\<close>

definition block_ok ::
  "sample_operator \<Rightarrow> nat \<Rightarrow> bufref list \<Rightarrow> bufref list \<Rightarrow> int \<Rightarrow> 'a memory \<Rightarrow> bool" where
  "block_ok d W in_chans out_chans F h \<longleftrightarrow>
     0 \<le> sint (input_count d) \<and> F \<le> INT_MAX \<and>
     unat (inputcount d) \<le> length in_chans \<and> W \<le> length out_chans \<and>
     list_all (\<lambda>p. has_frames h p F) (take (unat (inputcount d)) in_chans) \<and>
     list_all (\<lambda>p. has_frames h p F) (take W out_chans)"

text \<open>
  \<open>well_shaped d W out\<close>: a result of \<^verbatim>\<open>calculate\<close> that \<^verbatim>\<open>perform_copy_output\<close> can copy,
  to \<open>W\<close> channels: a sample (one channel), or an array that has an element for each
  of the \<^verbatim>\<open>outputcount()\<close> channels. \<open>scattered d out\<close> are the values copied, by channel.
\<close>

definition well_shaped :: "sample_operator \<Rightarrow> nat \<Rightarrow> 'a calculated \<Rightarrow> bool" where
  "well_shaped d W out =
     (case out of
        Sample v \<Rightarrow> W = 1
      | Samples vals \<Rightarrow>
          0 \<le> sint (output_count d) \<and> W = unat (outputcount d) \<and> W \<le> length vals)"

definition scattered :: "sample_operator \<Rightarrow> 'a calculated \<Rightarrow> 'a list" where
  "scattered d out =
     (case out of Sample v \<Rightarrow> [v] | Samples vals \<Rightarrow> take (unat (outputcount d)) vals)"

text \<open>
  \<open>input_frame h in_chans K i\<close>: the samples \<^verbatim>\<open>in_chans[0][i]\<close>, ...,
  \<^verbatim>\<open>in_chans[K-1][i]\<close> of the memory \<open>h\<close>, in ascending channel order.
\<close>

definition input_frame :: "'a memory \<Rightarrow> bufref list \<Rightarrow> nat \<Rightarrow> nat \<Rightarrow> 'a list" where
  "input_frame h in_chans K i = map (\<lambda>c. the (read_sample (in_chans ! c) i h)) [0..<K]"

text \<open>The events of one frame: \<open>K\<close> reads, the call, \<open>W\<close> writes.\<close>

definition frame_events :: "nat \<Rightarrow> nat \<Rightarrow> nat \<Rightarrow> 'a list \<Rightarrow> 'a event list" where
  "frame_events K W i args =
     map (\<lambda>c. InRead c i) [0..<K] @ [Calculate i args] @ map (\<lambda>c. OutWrite c i) [0..<W]"

definition same_shape :: "'a memory \<Rightarrow> 'a memory \<Rightarrow> bool" where
  "same_shape h h' \<longleftrightarrow> (\<forall>p. map_option length (h' p) = map_option length (h p))"

definition copied ::
  "bufref list \<Rightarrow> nat \<Rightarrow> 'a list \<Rightarrow> nat \<Rightarrow> ('a, 's) machine \<Rightarrow> ('a, 's) machine \<Rightarrow> bool" where
  "copied out_chans i vs W m m' \<longleftrightarrow>
     obj m' = obj m \<and>
     trace m' = trace m @ map (\<lambda>c. OutWrite c i) [0..<W] \<and>
     same_shape (mem m) (mem m') \<and>
     (\<forall>q k. q \<notin> set (take W out_chans) \<or> k \<noteq> i \<longrightarrow>
        read_sample q k (mem m') = read_sample q k (mem m)) \<and>
     (distinct (take W out_chans) \<longrightarrow>
        (\<forall>c<W. read_sample (out_chans ! c) i (mem m') = Some (vs ! c)))"

definition frame_done ::
  "sample_operator \<Rightarrow> ('s \<Rightarrow> 'a list \<Rightarrow> 'a calculated \<times> 's) \<Rightarrow> bufref list \<Rightarrow>
    bufref list \<Rightarrow> nat \<Rightarrow> nat \<Rightarrow> ('a, 's) machine \<Rightarrow> ('a, 's) machine \<Rightarrow> bool" where
  "frame_done d calculate in_chans out_chans W i m m' \<longleftrightarrow>
     (let args = input_frame (mem m) in_chans (unat (inputcount d)) i;
          r = calculate (obj m) args in
        obj m' = snd r \<and>
        trace m' = trace m @ frame_events (unat (inputcount d)) W i args \<and>
        same_shape (mem m) (mem m') \<and>
        (\<forall>q k. q \<notin> set (take W out_chans) \<or> k \<noteq> i \<longrightarrow>
           read_sample q k (mem m') = read_sample q k (mem m)) \<and>
        (distinct (take W out_chans) \<longrightarrow>
           (\<forall>c<W. read_sample (out_chans ! c) i (mem m') = Some (scattered d (fst r) ! c))))"

text \<open>
  \<open>performed \<dots> n m0 m\<close>: the state \<open>m\<close> after the frames below \<open>n\<close>, from the state \<open>m0\<close>.
  No buffer has changed its length; the trace has grown by the events of the frames
  \<open>0\<close>, ..., \<open>n - 1\<close>, in this order, each call with the input frame of the block as it
  was at the start; only the samples below \<open>n\<close> of the first \<open>W\<close> output buffers may
  have changed; and where these buffers are distinct, sample \<open>k\<close> of output \<open>c\<close> is what
  \<^verbatim>\<open>calculate\<close> returned for channel \<open>c\<close> on input frame \<open>k\<close>, in some state of the object.
\<close>

definition performed ::
  "sample_operator \<Rightarrow> ('s \<Rightarrow> 'a list \<Rightarrow> 'a calculated \<times> 's) \<Rightarrow> bufref list \<Rightarrow>
    bufref list \<Rightarrow> nat \<Rightarrow> nat \<Rightarrow> ('a, 's) machine \<Rightarrow> ('a, 's) machine \<Rightarrow> bool" where
  "performed d calculate in_chans out_chans W n m0 m \<longleftrightarrow>
     same_shape (mem m0) (mem m) \<and>
     trace m = trace m0 @
       concat (map (\<lambda>i. frame_events (unat (inputcount d)) W i
                 (input_frame (mem m0) in_chans (unat (inputcount d)) i)) [0..<n]) \<and>
     (\<forall>q k. q \<notin> set (take W out_chans) \<or> n \<le> k \<longrightarrow>
        read_sample q k (mem m) = read_sample q k (mem m0)) \<and>
     (distinct (take W out_chans) \<longrightarrow>
        (\<forall>c<W. \<forall>k<n. \<exists>s. read_sample (out_chans ! c) k (mem m) =
           Some (scattered d
             (fst (calculate s (input_frame (mem m0) in_chans (unat (inputcount d)) k))) ! c)))"

text \<open>
  The descriptor \<^verbatim>\<open>sample_operator<1,1>\<close>, and a \<^verbatim>\<open>calculate\<close> of one argument that
  returns a sample, as the generic \<^verbatim>\<open>perform\<close> would call it: with a bundle of one
  slot, expanded into the one argument.
\<close>

definition descriptor_1x1 :: sample_operator where
  "descriptor_1x1 = \<lparr>input_count = 1, output_count = 1\<rparr>"

definition unary :: "('s \<Rightarrow> 'a \<Rightarrow> 'a \<times> 's) \<Rightarrow> 's \<Rightarrow> 'a list \<Rightarrow> 'a calculated \<times> 's" where
  "unary calculate s args = (case calculate s (hd args) of (out, s') \<Rightarrow> (Sample out, s'))"

subsection \<open>Reading a trace\<close>

text \<open>The frames for which \<^verbatim>\<open>calculate\<close> was called, in the order of the calls.\<close>

primrec calls :: "'a event list \<Rightarrow> nat list" where
  "calls [] = []"
| "calls (e # es) = (case e of Calculate i args \<Rightarrow> i # calls es | _ \<Rightarrow> calls es)"

subsection \<open>Example compute units\<close>

text \<open>
  Units used to instantiate the theorems at concrete blocks: \<open>f(x) = 2 x\<close> for one input
  and one output; \<open>f(a, b) = a - 2 b\<close>, which is not symmetric, for two inputs and a
  sample as result; a unit that returns the array of sum and difference; and a unit
  with a state, the sum of the samples it has seen.
\<close>

definition twice :: "unit \<Rightarrow> int \<Rightarrow> int \<times> unit" where
  "twice s x = (2 * x, s)"

definition weighted :: "unit \<Rightarrow> int list \<Rightarrow> int calculated \<times> unit" where
  "weighted s a = (Sample (a ! 0 - 2 * a ! 1), s)"

definition sum_and_difference :: "unit \<Rightarrow> int list \<Rightarrow> int calculated \<times> unit" where
  "sum_and_difference s a = (Samples [a ! 0 + a ! 1, a ! 0 - a ! 1], s)"

definition running_sum :: "int \<Rightarrow> int \<Rightarrow> int \<times> int" where
  "running_sum s x = (s + x, s + x)"

section \<open>Properties\<close>

subsection \<open>The descriptor's counts\<close>

lemma uint_scast_32_64: "uint (scast (w :: 32 word) :: 64 word) = sint w mod 2 ^ 64"
proof -
  have "uint (scast w :: 64 word) = uint (word_of_int (sint w) :: 64 word)"
    by (simp only: scast_eq)
  also have "\<dots> = sint w mod 2 ^ LENGTH(64)"
    by (rule uint_word_of_int)
  finally show ?thesis by simp
qed

lemma uint_scast_nonneg:
  assumes "0 \<le> sint (w :: 32 word)"
  shows "uint (scast w :: 64 word) = sint w"
proof -
  have "sint w < 2 ^ 31" using sint_lt[of w] by simp
  then have "sint w < 2 ^ 64" by simp
  with assms show ?thesis by (simp only: uint_scast_32_64 mod_pos_pos_trivial)
qed

lemma count_bound:
  assumes "0 \<le> sint (w :: 32 word)"
  shows "uint (scast w :: 64 word) \<le> INT_MAX"
proof -
  have "sint w < 2 ^ 31" using sint_lt[of w] by simp
  with assms show ?thesis
    by (simp add: uint_scast_nonneg INT_MAX_def)
qed

lemma inputcount_1x1: "unat (inputcount descriptor_1x1) = 1"
  by (simp add: inputcount_def m_inputcount_def descriptor_1x1_def)

lemma input_count_1x1: "sint (input_count descriptor_1x1) = 1"
  by (simp add: descriptor_1x1_def)

subsection \<open>Counted loops\<close>

lemma for_int_total_from:
  assumes "bound \<le> INT_MAX"
    and "\<And>j s. i \<le> j \<Longrightarrow> int j < bound \<Longrightarrow> I j s \<Longrightarrow> \<exists>s'. body j s = Some s' \<and> I (Suc j) s'"
    and "I i st" and "int i \<le> bound"
  shows "\<exists>s'. for_int bound i body st = Some s' \<and> I (nat bound) s'"
  using assms
proof (induction bound i body st rule: for_int.induct)
  case (1 bound i body st)
  show ?case
  proof (cases "int i < bound")
    case False
    with "1.prems" have "nat bound = i" by simp
    with False "1.prems" show ?thesis by (simp add: for_int.simps)
  next
    case True
    from "1.prems"(2)[OF le_refl True "1.prems"(3)] obtain s1
      where s1: "body i st = Some s1" "I (Suc i) s1" by blast
    from True "1.prems"(1) have ne: "int i \<noteq> INT_MAX" by auto
    have "\<exists>s'. for_int bound (Suc i) body s1 = Some s' \<and> I (nat bound) s'"
    proof (rule "1.IH"[OF True s1(1) ne "1.prems"(1) _ s1(2)])
      fix j s assume "Suc i \<le> j" "int j < bound" "I j s"
      then show "\<exists>s'. body j s = Some s' \<and> I (Suc j) s'"
        using "1.prems"(2)[of j s] by simp
    next
      from True show "int (Suc i) \<le> bound" by simp
    qed
    then show ?thesis using True s1 ne by (subst for_int.simps) simp
  qed
qed

lemma for_int_total:
  assumes "bound \<le> INT_MAX"
    and "\<And>j s. int j < bound \<Longrightarrow> I j s \<Longrightarrow> \<exists>s'. body j s = Some s' \<and> I (Suc j) s'"
    and "I 0 st"
  shows "\<exists>s'. for_int bound 0 body st = Some s' \<and> I (nat bound) s'"
proof (cases "0 \<le> bound")
  case True
  then show ?thesis using for_int_total_from[of bound 0 I body st] assms by simp
next
  case False
  then show ?thesis using assms(3) by (simp add: for_int.simps)
qed

lemma for_int_overflow:
  assumes "INT_MAX < bound" and "int i \<le> INT_MAX"
  shows "for_int bound i body st = None"
  using assms
proof (induction "nat (INT_MAX - int i)" arbitrary: i st)
  case 0
  then have "int i = INT_MAX" by simp
  with "0.prems" show ?case
    by (cases "body i st") (simp_all add: for_int.simps)
next
  case (Suc n)
  then have less: "int i < INT_MAX" and n: "n = nat (INT_MAX - int (Suc i))" by simp_all
  show ?case
  proof (cases "body i st")
    case None
    with Suc.prems less show ?thesis by (simp add: for_int.simps)
  next
    case (Some st')
    from less have "int (Suc i) \<le> INT_MAX" by simp
    from Suc.hyps(1)[OF n Suc.prems(1) this] have "for_int bound (Suc i) body st' = None" .
    with Some Suc.prems less show ?thesis by (subst for_int.simps) simp
  qed
qed

lemma for_int_none: "bound \<le> 0 \<Longrightarrow> for_int bound 0 body st = Some st"
  by (simp add: for_int.simps)

lemma for_int_one: "for_int 1 0 body st = body 0 st"
  by (cases "body 0 st") (simp_all add: for_int.simps INT_MAX_def)

subsection \<open>Reading and writing samples\<close>

lemma same_shape_refl: "same_shape h h"
  by (simp add: same_shape_def)

lemma same_shape_trans: "same_shape h h1 \<Longrightarrow> same_shape h1 h2 \<Longrightarrow> same_shape h h2"
  by (simp add: same_shape_def)

lemma read_after_write:
  "write_sample p i v h = Some h' \<Longrightarrow>
   read_sample q k h' = (if q = p \<and> k = i then Some v else read_sample q k h)"
  by (auto simp: write_sample_def read_sample_def split: option.splits if_splits)

lemma write_same_shape: "write_sample p i v h = Some h' \<Longrightarrow> same_shape h h'"
  by (auto simp: write_sample_def same_shape_def split: option.splits if_splits)

lemma write_defined:
  "read_sample p i h \<noteq> None \<Longrightarrow> \<exists>h'. write_sample p i v h = Some h'"
  by (auto simp: write_sample_def read_sample_def split: option.splits if_splits)

lemma same_shape_defined:
  assumes s: "same_shape h h'" and r: "read_sample p i h \<noteq> None"
  shows "read_sample p i h' \<noteq> None"
proof -
  from s have e: "map_option length (h' p) = map_option length (h p)"
    by (simp add: same_shape_def)
  from r obtain b where b: "h p = Some b" "i < length b"
    by (auto simp: read_sample_def split: option.splits if_splits)
  with e obtain b' where "h' p = Some b'" "length b' = length b"
    by (cases "h' p") auto
  with b show ?thesis by (simp add: read_sample_def)
qed

lemma same_reads_same_buffer:
  assumes "same_shape h h'" and "\<And>k. read_sample p k h' = read_sample p k h"
  shows "h' p = h p"
proof (cases "h p")
  case None
  from assms(1) have "map_option length (h' p) = map_option length (h p)"
    by (simp add: same_shape_def)
  with None show ?thesis by simp
next
  case (Some b)
  from assms(1) have "map_option length (h' p) = map_option length (h p)"
    by (simp add: same_shape_def)
  with Some obtain b' where b': "h' p = Some b'" "length b' = length b"
    by (cases "h' p") auto
  have "b' ! k = b ! k" if "k < length b" for k
    using assms(2)[of k] that b' Some by (simp add: read_sample_def)
  with b' have "b' = b" by (simp add: list_eq_iff_nth_eq)
  with b' Some show ?thesis by simp
qed

lemma has_frames_read:
  "has_frames h p F \<Longrightarrow> int i < F \<Longrightarrow> read_sample p i h \<noteq> None"
  by (auto simp: has_frames_def read_sample_def split: option.splits)

lemma block_ok_in:
  assumes "block_ok d W in_chans out_chans F h" "c < unat (inputcount d)" "int i < F"
  shows "read_sample (in_chans ! c) i h \<noteq> None"
proof -
  from assms(1,2) have "has_frames h (take (unat (inputcount d)) in_chans ! c) F"
    by (simp add: block_ok_def list_all_length)
  with assms(2) have "has_frames h (in_chans ! c) F" by simp
  then show ?thesis using assms(3) by (rule has_frames_read)
qed

lemma block_ok_out:
  assumes "block_ok d W in_chans out_chans F h" "c < W" "int i < F"
  shows "read_sample (out_chans ! c) i h \<noteq> None"
proof -
  from assms(1,2) have "has_frames h (take W out_chans ! c) F"
    by (simp add: block_ok_def list_all_length)
  with assms(2) have "has_frames h (out_chans ! c) F" by simp
  then show ?thesis using assms(3) by (rule has_frames_read)
qed

subsection \<open>The bundle\<close>

lemma gen_seq_upt: "gen_seq n Is = [0..<n] @ Is"
  by (induction n arbitrary: Is) simp_all

lemma those_map_defined:
  "\<forall>x\<in>set xs. f x \<noteq> None \<Longrightarrow> those (map f xs) = Some (map (\<lambda>x. the (f x)) xs)"
  by (induction xs) auto

lemma call_filled:
  assumes "\<And>c. c < K \<Longrightarrow> g c \<noteq> None"
  shows "call K (map g [0..<K]) = Some (map (\<lambda>c. the (g c)) [0..<K])"
proof -
  have "map (slot (map g [0..<K])) [0..<K] = map g [0..<K]"
    by (simp add: slot_def)
  then show ?thesis
    using assms by (simp add: call_def call_seq_def gen_seq_upt those_map_defined)
qed

lemma gather_filled:
  fixes m :: "('a, 's) machine"
  assumes nonneg: "0 \<le> sint (input_count d)"
    and K: "K = unat (inputcount d)"
    and len: "K \<le> length in_chans"
    and rd: "\<And>c. c < K \<Longrightarrow> read_sample (in_chans ! c) i (mem m) \<noteq> None"
  shows "gather d in_chans i (callable_samples K, m) =
         Some (map (\<lambda>c. read_sample (in_chans ! c) i (mem m)) [0..<K],
               m\<lparr>trace := trace m @ map (\<lambda>c. InRead c i) [0..<K]\<rparr>)"
proof -
  define g where "g c = read_sample (in_chans ! c) i (mem m)" for c
  define I where "I j st \<longleftrightarrow> j \<le> K \<and>
      st = (map g [0..<j] @ replicate (K - j) None,
            m\<lparr>trace := trace m @ map (\<lambda>c. InRead c i) [0..<j]\<rparr>)"
    for j and st :: "'a option list \<times> ('a, 's) machine"
  define body where "body = (\<lambda>chan (ins, m :: ('a, 's) machine).
       do {
         p \<leftarrow> channel in_chans chan;
         v \<leftarrow> read_sample p i (mem m);
         ins \<leftarrow> set_sample ins chan v;
         Some (ins, m\<lparr>trace := trace m @ [InRead chan i]\<rparr>)
       })"
  have bound1: "uint (inputcount d) \<le> INT_MAX"
    unfolding inputcount_def m_inputcount_def by (rule count_bound[OF nonneg])
  have bound2: "uint (inputcount d) = int K"
    unfolding K by (rule uint_nat)
  have step: "\<exists>s'. body j s = Some s' \<and> I (Suc j) s'"
    if "int j < uint (inputcount d)" "I j s" for j s
  proof -
    from that bound2 have j: "j < K" by simp
    from rd[OF j] obtain v where v: "g j = Some v" by (auto simp: g_def)
    from j have rep: "replicate (K - j) (None :: 'a option) = None # replicate (K - Suc j) None"
      by (metis Suc_diff_Suc replicate_Suc)
    have "(map g [0..<j] @ None # replicate (K - Suc j) None)[length (map g [0..<j]) := Some v] =
          map g [0..<j] @ Some v # replicate (K - Suc j) None"
      by (rule list_update_length)
    then have upd: "(map g [0..<j] @ replicate (K - j) None)[j := Some v] =
               map g [0..<Suc j] @ replicate (K - Suc j) None"
      using v by (simp add: rep)
    show ?thesis
      using that(2) j len v upd
      by (simp add: I_def body_def channel_def set_sample_def g_def[symmetric])
  qed
  have "I 0 (callable_samples K, m)"
    by (simp add: I_def callable_samples_def)
  from for_int_total[where I = I, OF bound1 step this]
  show ?thesis
    by (simp add: gather_def body_def I_def bound2 g_def)
qed

subsection \<open>Copying the output\<close>

lemma copied_start: "copied out_chans i vs 0 m m"
  by (simp add: copied_def same_shape_refl)

lemma copied_step:
  fixes m :: "('a, 's) machine"
  assumes inv: "copied out_chans i vs j m s"
    and j: "j < length out_chans"
    and w: "write_sample (out_chans ! j) i (vs ! j) (mem s) = Some h"
  shows "copied out_chans i vs (Suc j) m (s\<lparr>mem := h, trace := trace s @ [OutWrite j i]\<rparr>)"
proof -
  have tk: "take (Suc j) out_chans = take j out_chans @ [out_chans ! j]"
    using j by (rule take_Suc_conv_app_nth)
  have rd: "read_sample q k h =
      (if q = out_chans ! j \<and> k = i then Some (vs ! j) else read_sample q k (mem s))" for q k
    by (rule read_after_write[OF w])
  have 1: "same_shape (mem m) h"
    using inv write_same_shape[OF w] by (auto simp: copied_def intro: same_shape_trans)
  have 2: "read_sample q k h = read_sample q k (mem m)"
    if "q \<notin> set (take (Suc j) out_chans) \<or> k \<noteq> i" for q k
    using that inv by (auto simp: rd tk copied_def)
  have 3: "read_sample (out_chans ! c) i h = Some (vs ! c)"
    if d: "distinct (take (Suc j) out_chans)" and c: "c < Suc j" for c
  proof (cases "c = j")
    case True
    then show ?thesis by (simp add: rd)
  next
    case False
    with c have cj: "c < j" by simp
    with j have "out_chans ! c \<in> set (take j out_chans)"
      by (metis in_set_conv_nth length_take min.absorb2 less_imp_le nth_take)
    moreover from d have "out_chans ! j \<notin> set (take j out_chans)" "distinct (take j out_chans)"
      by (simp_all add: tk)
    ultimately show ?thesis using inv cj by (auto simp: rd copied_def)
  qed
  from inv 1 2 3 show ?thesis
    by (simp add: copied_def)
qed

lemma copy_samples:
  fixes m :: "('a, 's) machine"
  assumes nonneg: "0 \<le> sint (output_count d)"
    and M: "M = unat (outputcount d)"
    and vals: "M \<le> length vals"
    and len: "M \<le> length out_chans"
    and alloc: "\<And>c. c < M \<Longrightarrow> read_sample (out_chans ! c) i (mem m) \<noteq> None"
  shows "\<exists>m'. perform_copy_output d i out_chans (Samples vals) m = Some m' \<and>
              copied out_chans i vals M m m'"
proof -
  define body where "body = (\<lambda>chan (m :: ('a, 's) machine).
       do {
         v \<leftarrow> element vals chan;
         p \<leftarrow> channel out_chans chan;
         h \<leftarrow> write_sample p i v (mem m);
         Some (m\<lparr>mem := h, trace := trace m @ [OutWrite chan i]\<rparr>)
       })"
  have bound1: "uint (outputcount d) \<le> INT_MAX"
    unfolding outputcount_def m_outputcount_def by (rule count_bound[OF nonneg])
  have bound2: "uint (outputcount d) = int M"
    unfolding M by (rule uint_nat)
  have step: "\<exists>s'. body j s = Some s' \<and> copied out_chans i vals (Suc j) m s'"
    if "int j < uint (outputcount d)" "copied out_chans i vals j m s" for j s
  proof -
    from that(1) bound2 have j: "j < M" by simp
    from that(2) have "same_shape (mem m) (mem s)" by (simp add: copied_def)
    from write_defined[OF same_shape_defined[OF this alloc[OF j]], of "vals ! j"]
    obtain h where h: "write_sample (out_chans ! j) i (vals ! j) (mem s) = Some h" ..
    from j len have jl: "j < length out_chans" by simp
    from copied_step[OF that(2) jl h] j vals len h show ?thesis
      by (simp add: body_def element_def channel_def)
  qed
  from for_int_total[where I = "\<lambda>j s. copied out_chans i vals j m s", OF bound1 step copied_start]
  show ?thesis
    by (simp add: body_def bound2)
qed

lemma copy_sample:
  fixes m :: "('a, 's) machine"
  assumes len: "1 \<le> length out_chans"
    and alloc: "read_sample (out_chans ! 0) i (mem m) \<noteq> None"
  shows "\<exists>m'. perform_copy_output d i out_chans (Sample v) m = Some m' \<and>
              copied out_chans i [v] 1 m m'"
proof -
  from write_defined[OF alloc, of "[v] ! 0"]
  obtain h where h: "write_sample (out_chans ! 0) i ([v] ! 0) (mem m) = Some h" ..
  from len have pos: "0 < length out_chans" and ne: "out_chans \<noteq> []" by auto
  from copied_step[OF copied_start pos h] h ne show ?thesis
    by (simp add: channel_def)
qed

lemma copy_output:
  fixes m :: "('a, 's) machine"
  assumes shape: "well_shaped d W out"
    and len: "W \<le> length out_chans"
    and alloc: "\<And>c. c < W \<Longrightarrow> read_sample (out_chans ! c) i (mem m) \<noteq> None"
  shows "\<exists>m'. perform_copy_output d i out_chans out m = Some m' \<and>
              copied out_chans i (scattered d out) W m m'"
proof (cases out)
  case (Sample v)
  with shape have "W = 1" by (simp add: well_shaped_def)
  with copy_sample[of out_chans i m d v] len alloc Sample show ?thesis
    by (simp add: scattered_def)
next
  case (Samples vals)
  with shape have s: "0 \<le> sint (output_count d)" "W = unat (outputcount d)" "W \<le> length vals"
    by (simp_all add: well_shaped_def)
  from copy_samples[OF s len alloc] obtain m'
    where m': "perform_copy_output d i out_chans (Samples vals) m = Some m'"
      "copied out_chans i vals W m m'" by blast
  from m'(2) have "copied out_chans i (take W vals) W m m'"
    by (simp add: copied_def)
  with m' Samples s show ?thesis by (simp add: scattered_def)
qed

subsection \<open>One frame, and all frames, of the generic perform\<close>

lemma length_input_frame: "length (input_frame h in_chans K i) = K"
  by (simp add: input_frame_def)

lemma perform_frame_done:
  fixes m :: "('a, 's) machine"
  assumes nonneg: "0 \<le> sint (input_count d)"
    and len: "unat (inputcount d) \<le> length in_chans"
    and rd: "\<And>c. c < unat (inputcount d) \<Longrightarrow> read_sample (in_chans ! c) i (mem m) \<noteq> None"
    and shape: "well_shaped d W
        (fst (calculate (obj m) (input_frame (mem m) in_chans (unat (inputcount d)) i)))"
    and olen: "W \<le> length out_chans"
    and alloc: "\<And>c. c < W \<Longrightarrow> read_sample (out_chans ! c) i (mem m) \<noteq> None"
  shows "\<exists>m'. perform_frame d calculate in_chans out_chans i m = Some m' \<and>
              frame_done d calculate in_chans out_chans W i m m'"
proof -
  define K where "K = unat (inputcount d)"
  define args where "args = input_frame (mem m) in_chans K i"
  define m1 where "m1 = m\<lparr>trace := trace m @ map (\<lambda>c. InRead c i) [0..<K]\<rparr>"
  define r where "r = calculate (obj m) args"
  define m2 where "m2 = m1\<lparr>obj := snd r, trace := trace m1 @ [Calculate i args]\<rparr>"
  have g: "gather d in_chans i (callable_samples K, m) =
       Some (map (\<lambda>c. read_sample (in_chans ! c) i (mem m)) [0..<K], m1)"
    unfolding m1_def
  proof (rule gather_filled[OF nonneg K_def])
    show "K \<le> length in_chans" using len by (simp add: K_def)
    show "read_sample (in_chans ! c) i (mem m) \<noteq> None" if "c < K" for c
      using rd that by (simp add: K_def)
  qed
  have c: "call K (map (\<lambda>c. read_sample (in_chans ! c) i (mem m)) [0..<K]) = Some args"
    unfolding args_def input_frame_def using rd by (intro call_filled) (simp add: K_def)
  have "well_shaped d W (fst r)"
    using shape by (simp add: r_def args_def K_def)
  moreover have "read_sample (out_chans ! c) i (mem m2) \<noteq> None" if "c < W" for c
    using alloc[OF that] by (simp add: m2_def m1_def)
  ultimately obtain m' where m': "perform_copy_output d i out_chans (fst r) m2 = Some m'"
    "copied out_chans i (scattered d (fst r)) W m2 m'"
    using copy_output[of d W "fst r" out_chans i m2] olen by blast
  have run: "perform_frame d calculate in_chans out_chans i m = Some m'"
    using g c m'(1)
    by (simp add: perform_frame_def K_def[symmetric] r_def[symmetric] m2_def m1_def
        split_beta Let_def)
  have "frame_done d calculate in_chans out_chans W i m m'"
    using m'(2)
    by (simp add: frame_done_def copied_def K_def[symmetric] args_def[symmetric]
        r_def[symmetric] m2_def m1_def frame_events_def Let_def)
  with run show ?thesis by blast
qed

lemma performed_start: "performed d calculate in_chans out_chans W 0 m m"
  by (simp add: performed_def same_shape_refl)

lemma performed_step:
  fixes m0 :: "('a, 's) machine"
  assumes inv: "performed d calculate in_chans out_chans W j m0 m"
    and fr: "frame_done d calculate in_chans out_chans W j m m'"
  shows "performed d calculate in_chans out_chans W (Suc j) m0 m'"
proof -
  define K where "K = unat (inputcount d)"
  have same_in: "input_frame (mem m) in_chans K j = input_frame (mem m0) in_chans K j"
    using inv by (simp add: input_frame_def performed_def)
  have 1: "same_shape (mem m0) (mem m')"
    using inv fr by (auto simp: performed_def frame_done_def Let_def intro: same_shape_trans)
  have 2: "trace m' = trace m0 @
      concat (map (\<lambda>i. frame_events K W i (input_frame (mem m0) in_chans K i)) [0..<Suc j])"
    using inv fr same_in by (simp add: performed_def frame_done_def Let_def K_def)
  have 3: "read_sample q k (mem m') = read_sample q k (mem m0)"
    if "q \<notin> set (take W out_chans) \<or> Suc j \<le> k" for q k
  proof -
    from that have "q \<notin> set (take W out_chans) \<or> k \<noteq> j" by auto
    with fr have "read_sample q k (mem m') = read_sample q k (mem m)"
      by (simp add: frame_done_def Let_def)
    also from that inv have "\<dots> = read_sample q k (mem m0)"
      by (auto simp: performed_def)
    finally show ?thesis .
  qed
  have 4: "\<exists>s. read_sample (out_chans ! c) k (mem m') =
      Some (scattered d (fst (calculate s (input_frame (mem m0) in_chans K k))) ! c)"
    if dist: "distinct (take W out_chans)" and c: "c < W" and k: "k < Suc j" for c k
  proof (cases "k = j")
    case True
    from fr dist c have "read_sample (out_chans ! c) j (mem m') =
        Some (scattered d (fst (calculate (obj m) (input_frame (mem m) in_chans K j))) ! c)"
      by (simp add: frame_done_def Let_def K_def)
    with True same_in show ?thesis by auto
  next
    case False
    with fr have "read_sample (out_chans ! c) k (mem m') = read_sample (out_chans ! c) k (mem m)"
      by (simp add: frame_done_def Let_def)
    moreover from False k have "k < j" by simp
    ultimately show ?thesis using inv dist c by (simp add: performed_def K_def)
  qed
  from 1 2 3 4 show ?thesis
    unfolding performed_def K_def by blast
qed

lemma perform_generic_performed:
  fixes m0 :: "('a, 's) machine"
  assumes ok: "block_ok d W in_chans out_chans F (mem m0)"
    and shape: "\<And>s a. length a = unat (inputcount d) \<Longrightarrow> well_shaped d W (fst (calculate s a))"
  shows "\<exists>m'. perform_generic d calculate in_chans out_chans F m0 = Some m' \<and>
              performed d calculate in_chans out_chans W (nat F) m0 m'"
proof -
  have step: "\<exists>m'. perform_frame d calculate in_chans out_chans j m = Some m' \<and>
                performed d calculate in_chans out_chans W (Suc j) m0 m'"
    if j: "int j < F" and inv: "performed d calculate in_chans out_chans W j m0 m" for j m
  proof -
    have keep: "read_sample q j (mem m) = read_sample q j (mem m0)" for q
      using inv by (simp add: performed_def)
    have rd: "read_sample (in_chans ! c) j (mem m) \<noteq> None" if "c < unat (inputcount d)" for c
      unfolding keep using ok that j by (rule block_ok_in)
    have alloc: "read_sample (out_chans ! c) j (mem m) \<noteq> None" if "c < W" for c
      unfolding keep using ok that j by (rule block_ok_out)
    from ok have nonneg: "0 \<le> sint (input_count d)"
      and len: "unat (inputcount d) \<le> length in_chans" and olen: "W \<le> length out_chans"
      by (simp_all add: block_ok_def)
    have sh: "well_shaped d W
        (fst (calculate (obj m) (input_frame (mem m) in_chans (unat (inputcount d)) j)))"
      by (rule shape[OF length_input_frame])
    from perform_frame_done[where calculate = calculate and m = m and i = j and W = W,
        OF nonneg len rd sh olen alloc]
    obtain m' where "perform_frame d calculate in_chans out_chans j m = Some m'"
      "frame_done d calculate in_chans out_chans W j m m'" by blast
    with performed_step[OF inv] show ?thesis by blast
  qed
  from ok have "F \<le> INT_MAX" by (simp add: block_ok_def)
  from for_int_total[where I = "\<lambda>j m. performed d calculate in_chans out_chans W j m0 m",
      OF this step performed_start]
  show ?thesis by (simp add: perform_generic_def)
qed

subsection \<open>The specialisation as an instance of the generic perform\<close>

lemma perform_frame_1x1:
  fixes m :: "('a, 's) machine"
  assumes "in_chans \<noteq> []" "out_chans \<noteq> []"
  shows "perform_frame descriptor_1x1 (unary calculate) in_chans out_chans i m =
     do {
       in1 \<leftarrow> read_sample (in_chans ! 0) i (mem m);
       let m = m\<lparr>trace := trace m @ [InRead 0 i]\<rparr>;
       let (out, s) = calculate (obj m) in1;
       let m = m\<lparr>obj := s, trace := trace m @ [Calculate i [in1]]\<rparr>;
       h \<leftarrow> write_sample (out_chans ! 0) i out (mem m);
       Some (m\<lparr>mem := h, trace := trace m @ [OutWrite 0 i]\<rparr>)
     }"
proof -
  have u: "uint (inputcount descriptor_1x1) = 1"
    by (simp add: inputcount_def m_inputcount_def descriptor_1x1_def)
  show ?thesis
    using assms
    by (cases "read_sample (in_chans ! 0) i (mem m)")
      (simp_all add: perform_frame_def gather_def u inputcount_1x1 for_int_one
        callable_samples_def channel_def set_sample_def call_def call_seq_def slot_def
        unary_def split_beta Let_def)
qed

lemma perform_1x1_generic:
  fixes m :: "('a, 's) machine"
  assumes "in_chans \<noteq> []" "out_chans \<noteq> []"
  shows "perform_1x1 calculate in_chans out_chans F m =
         perform_generic descriptor_1x1 (unary calculate) in_chans out_chans F m"
proof -
  have "perform_frame descriptor_1x1 (unary calculate) in_chans out_chans =
     (\<lambda>i (m :: ('a, 's) machine).
       do {
         in1 \<leftarrow> read_sample (in_chans ! 0) i (mem m);
         let m = m\<lparr>trace := trace m @ [InRead 0 i]\<rparr>;
         let (out, s) = calculate (obj m) in1;
         let m = m\<lparr>obj := s, trace := trace m @ [Calculate i [in1]]\<rparr>;
         h \<leftarrow> write_sample (out_chans ! 0) i out (mem m);
         Some (m\<lparr>mem := h, trace := trace m @ [OutWrite 0 i]\<rparr>)
       })"
    by (intro ext) (rule perform_frame_1x1[OF assms])
  with assms show ?thesis
    by (simp add: perform_1x1_def perform_generic_def channel_def)
qed

subsection \<open>Blocks of the specialisation, and the calls in a trace\<close>

lemma take_one: "xs \<noteq> [] \<Longrightarrow> take (Suc 0) xs = [xs ! 0]"
  by (cases xs) simp_all

lemma block_ok_1x1:
  "block_ok descriptor_1x1 1 in_chans out_chans F h \<longleftrightarrow>
     in_chans \<noteq> [] \<and> out_chans \<noteq> [] \<and> F \<le> INT_MAX \<and>
     has_frames h (in_chans ! 0) F \<and> has_frames h (out_chans ! 0) F"
  by (cases in_chans; cases out_chans)
    (auto simp: block_ok_def inputcount_1x1 input_count_1x1)

lemma well_shaped_unary: "well_shaped d (Suc 0) (fst (unary calculate s a))"
  by (simp add: unary_def well_shaped_def split_beta)

lemma perform_1x1_performed:
  fixes m :: "('a, 's) machine"
  assumes "block_ok descriptor_1x1 1 in_chans out_chans F (mem m)"
  shows "\<exists>m'. perform_1x1 calculate in_chans out_chans F m = Some m' \<and>
           performed descriptor_1x1 (unary calculate) in_chans out_chans 1 (nat F) m m'"
proof -
  from assms[THEN block_ok_1x1[THEN iffD1]] have ne: "in_chans \<noteq> []" "out_chans \<noteq> []"
    by simp_all
  have sh: "well_shaped descriptor_1x1 1 (fst (unary calculate s a))" for s a
    by (simp add: well_shaped_unary)
  from perform_generic_performed[OF assms sh]
  show ?thesis
    by (simp only: perform_1x1_generic[OF ne])
qed

lemma input_frame_one:
  "input_frame h in_chans (Suc 0) i = [the (read_sample (in_chans ! 0) i h)]"
  by (simp add: input_frame_def)

lemma calls_append: "calls (xs @ ys) = calls xs @ calls ys"
  by (induction xs) (simp_all split: event.splits)

lemma calls_reads: "calls (map (\<lambda>c. InRead c i) cs) = []"
  by (induction cs) simp_all

lemma calls_writes: "calls (map (\<lambda>c. OutWrite c i) cs) = []"
  by (induction cs) simp_all

lemma calls_frames: "calls (concat (map (\<lambda>i. frame_events K W i (g i)) xs)) = xs"
  by (induction xs) (simp_all add: calls_append frame_events_def calls_reads calls_writes)

section \<open>The claims\<close>

text \<open>
  A block is described by the hypotheses of the theorems: the channel pointers that
  the code reads exist and point to buffers of at least \<open>F\<close> frames, and \<open>F\<close> is at most
  \<^verbatim>\<open>INT_MAX\<close>, the range of the \<^verbatim>\<open>int\<close> loop counter (every frame count is, where \<^verbatim>\<open>long\<close>
  is as wide as \<^verbatim>\<open>int\<close>; where it is wider, \<open>for_int_overflow\<close> shows what lies beyond).
  An input pointer may be equal to an output pointer: the block is then processed in
  place. A compute function is deterministic when its result does not depend on the
  state of the object.
\<close>

subsection \<open>What perform writes\<close>

text \<open>
  C1. For a unit with one input and one output whose \<^verbatim>\<open>calculate\<close> returns \<open>f x\<close> for the
  sample \<open>x\<close>, whatever the state of the object, \<^verbatim>\<open>perform\<close> on a block of \<open>F\<close> frames
  returns, and afterwards \<^verbatim>\<open>out_chans[0][i]\<close> is \<open>f\<close> of the sample \<^verbatim>\<open>in_chans[0][i]\<close> that
  the caller supplied, for every frame \<open>i\<close> below \<open>F\<close>. The two channels may be the same
  buffer.
\<close>

theorem perform_1x1_output:
  fixes m :: "('a, 's) machine"
  assumes "in_chans \<noteq> []" and "out_chans \<noteq> []"
    and "has_frames (mem m) (in_chans ! 0) F" and "has_frames (mem m) (out_chans ! 0) F"
    and "F \<le> INT_MAX"
    and det: "\<And>s x. fst (calculate s x) = f x"
  shows "\<exists>m'. perform_1x1 calculate in_chans out_chans F m = Some m' \<and>
           (\<forall>i. int i < F \<longrightarrow>
              (\<exists>x. read_sample (in_chans ! 0) i (mem m) = Some x \<and>
                   read_sample (out_chans ! 0) i (mem m') = Some (f x)))"
proof -
  have ok: "block_ok descriptor_1x1 1 in_chans out_chans F (mem m)"
    by (rule block_ok_1x1[THEN iffD2]) (simp add: assms)
  from perform_1x1_performed[OF ok, of calculate] obtain m'
    where run: "perform_1x1 calculate in_chans out_chans F m = Some m'"
      and p: "performed descriptor_1x1 (unary calculate) in_chans out_chans 1 (nat F) m m'"
    by blast
  have "\<exists>x. read_sample (in_chans ! 0) i (mem m) = Some x \<and>
            read_sample (out_chans ! 0) i (mem m') = Some (f x)" if i: "int i < F" for i
  proof -
    from has_frames_read[OF assms(3) i] obtain x
      where x: "read_sample (in_chans ! 0) i (mem m) = Some x" by blast
    from i have "i < nat F" by simp
    with p assms(2) obtain s where "read_sample (out_chans ! 0) i (mem m') =
        Some (scattered descriptor_1x1
          (fst (unary calculate s (input_frame (mem m) in_chans 1 i))) ! 0)"
      by (auto simp: performed_def take_one inputcount_1x1)
    with x show ?thesis
      by (simp add: input_frame_one unary_def scattered_def split_beta det)
  qed
  with run show ?thesis by blast
qed

theorem perform_1x1_output_witness:
  "\<exists>m'. perform_1x1 twice [0] [1] 2
           \<lparr>mem = [0 \<mapsto> [5, - 1], 1 \<mapsto> [0, 0]], obj = (), trace = []\<rparr> = Some m' \<and>
        read_sample 1 0 (mem m') = Some 10 \<and> read_sample 1 1 (mem m') = Some (- 2)"
proof -
  define m :: "(int, unit) machine"
    where "m = \<lparr>mem = [0 \<mapsto> [5, - 1], 1 \<mapsto> [0, 0]], obj = (), trace = []\<rparr>"
  have "\<exists>m'. perform_1x1 twice [0] [1] 2 m = Some m' \<and>
           (\<forall>i. int i < 2 \<longrightarrow>
              (\<exists>x. read_sample ([0] ! 0) i (mem m) = Some x \<and>
                   read_sample ([1] ! 0) i (mem m') = Some (2 * x)))"
    by (rule perform_1x1_output)
      (simp_all add: m_def has_frames_def INT_MAX_def twice_def)
  then obtain m' where run: "perform_1x1 twice [0] [1] 2 m = Some m'"
    and out: "\<And>i. int i < 2 \<Longrightarrow>
       \<exists>x. read_sample 0 i (mem m) = Some x \<and> read_sample 1 i (mem m') = Some (2 * x)"
    by auto
  from out[of 0] out[of 1] have "read_sample 1 0 (mem m') = Some 10"
    "read_sample 1 1 (mem m') = Some (- 2)"
    by (simp_all add: m_def read_sample_def)
  with run show ?thesis unfolding m_def by blast
qed

text \<open>
  C2. For a unit whose \<^verbatim>\<open>calculate\<close> takes \<open>K\<close> arguments and returns the sample \<open>f a\<close> for
  the argument list \<open>a\<close>, the generic \<^verbatim>\<open>perform\<close> returns, and afterwards
  \<^verbatim>\<open>out_chans[0][i]\<close> is \<open>f\<close> of the list \<^verbatim>\<open>in_chans[0][i]\<close>, ..., \<^verbatim>\<open>in_chans[K-1][i]\<close>, in
  ascending channel order, for every frame \<open>i\<close> below \<open>F\<close>. The theorem holds for every
  \<open>K\<close>, so for \<open>K > 1\<close>; the instance that follows it takes \<open>f(a, b) = a - 2 b\<close>, for
  which the order of the arguments matters.
\<close>

theorem perform_generic_single_output:
  fixes m :: "('a, 's) machine"
  assumes ok: "block_ok d 1 in_chans out_chans F (mem m)"
    and det: "\<And>s a. length a = unat (inputcount d) \<Longrightarrow> fst (calculate s a) = Sample (f a)"
  shows "\<exists>m'. perform_generic d calculate in_chans out_chans F m = Some m' \<and>
           (\<forall>i. int i < F \<longrightarrow>
              read_sample (out_chans ! 0) i (mem m') =
                Some (f (input_frame (mem m) in_chans (unat (inputcount d)) i)))"
proof -
  have sh: "well_shaped d 1 (fst (calculate s a))" if "length a = unat (inputcount d)" for s a
    using det[OF that] by (simp add: well_shaped_def)
  from perform_generic_performed[where calculate = calculate, OF ok sh] obtain m'
    where run: "perform_generic d calculate in_chans out_chans F m = Some m'"
      and p: "performed d calculate in_chans out_chans 1 (nat F) m m'"
    by blast
  from ok have ne: "out_chans \<noteq> []" by (auto simp: block_ok_def)
  have "read_sample (out_chans ! 0) i (mem m') =
      Some (f (input_frame (mem m) in_chans (unat (inputcount d)) i))" if i: "int i < F" for i
  proof -
    from i have "i < nat F" by simp
    with p ne obtain s where "read_sample (out_chans ! 0) i (mem m') =
        Some (scattered d
          (fst (calculate s (input_frame (mem m) in_chans (unat (inputcount d)) i))) ! 0)"
      by (auto simp: performed_def take_one)
    then show ?thesis
      by (simp add: det[OF length_input_frame] scattered_def)
  qed
  with run show ?thesis by blast
qed

theorem perform_generic_single_output_witness:
  "\<exists>m'. perform_generic \<lparr>input_count = 2, output_count = 1\<rparr> weighted [0, 1] [2] 3
           \<lparr>mem = [0 \<mapsto> [1, 2, 3], 1 \<mapsto> [10, 20, 30], 2 \<mapsto> [0, 0, 0]],
            obj = (), trace = []\<rparr> = Some m' \<and>
        read_sample 2 0 (mem m') = Some (- 19) \<and>
        read_sample 2 1 (mem m') = Some (- 38) \<and>
        read_sample 2 2 (mem m') = Some (- 57)"
proof -
  define d where "d = \<lparr>input_count = 2, output_count = 1\<rparr>"
  define m :: "(int, unit) machine"
    where "m = \<lparr>mem = [0 \<mapsto> [1, 2, 3], 1 \<mapsto> [10, 20, 30], 2 \<mapsto> [0, 0, 0]],
             obj = (), trace = []\<rparr>"
  have K: "unat (inputcount d) = 2" "sint (input_count d) = 2"
    by (simp_all add: d_def inputcount_def m_inputcount_def)
  have "\<exists>m'. perform_generic d weighted [0, 1] [2] 3 m = Some m' \<and>
           (\<forall>i. int i < 3 \<longrightarrow>
              read_sample ([2] ! 0) i (mem m') =
                Some (input_frame (mem m) [0, 1] (unat (inputcount d)) i ! 0 -
                      2 * input_frame (mem m) [0, 1] (unat (inputcount d)) i ! 1))"
    by (rule perform_generic_single_output)
      (simp_all add: block_ok_def K m_def has_frames_def INT_MAX_def weighted_def)
  then obtain m' where run: "perform_generic d weighted [0, 1] [2] 3 m = Some m'"
    and out: "\<And>i. int i < 3 \<Longrightarrow> read_sample 2 i (mem m') =
       Some (input_frame (mem m) [0, 1] 2 i ! 0 - 2 * input_frame (mem m) [0, 1] 2 i ! 1)"
    by (auto simp: K)
  have two: "[0..<2] = [0, Suc 0]"
    by (simp add: upt_rec)
  from out[of 0] out[of 1] out[of 2] have "read_sample 2 0 (mem m') = Some (- 19)"
    "read_sample 2 1 (mem m') = Some (- 38)" "read_sample 2 2 (mem m') = Some (- 57)"
    by (simp_all add: m_def input_frame_def read_sample_def two)
  with run show ?thesis unfolding m_def d_def by blast
qed

text \<open>
  C3. For a unit with \<open>K\<close> inputs and \<open>M\<close> outputs whose \<^verbatim>\<open>calculate\<close> returns the array
  \<open>f a\<close> of length \<open>M\<close>, and a block whose \<open>M\<close> output channels are different buffers, the
  generic \<^verbatim>\<open>perform\<close> returns, and afterwards \<^verbatim>\<open>out_chans[c][i]\<close> is element \<open>c\<close> of \<open>f\<close> of
  the input frame \<open>i\<close>, for every frame \<open>i\<close> below \<open>F\<close> and every channel \<open>c\<close> below \<open>M\<close>.
  The theorem holds for every \<open>K\<close> and \<open>M\<close>, so for \<open>K, M > 1\<close>.
\<close>

theorem perform_generic_scatter:
  fixes m :: "('a, 's) machine"
  assumes ok: "block_ok d (unat (outputcount d)) in_chans out_chans F (mem m)"
    and nonneg: "0 \<le> sint (output_count d)"
    and dist: "distinct (take (unat (outputcount d)) out_chans)"
    and det: "\<And>s a. length a = unat (inputcount d) \<Longrightarrow>
                fst (calculate s a) = Samples (f a) \<and> length (f a) = unat (outputcount d)"
  shows "\<exists>m'. perform_generic d calculate in_chans out_chans F m = Some m' \<and>
           (\<forall>i c. int i < F \<longrightarrow> c < unat (outputcount d) \<longrightarrow>
              read_sample (out_chans ! c) i (mem m') =
                Some (f (input_frame (mem m) in_chans (unat (inputcount d)) i) ! c))"
proof -
  define M where "M = unat (outputcount d)"
  have sh: "well_shaped d M (fst (calculate s a))" if "length a = unat (inputcount d)" for s a
    using det[OF that] nonneg by (simp add: well_shaped_def M_def)
  from perform_generic_performed[where calculate = calculate, OF ok[folded M_def] sh] obtain m'
    where run: "perform_generic d calculate in_chans out_chans F m = Some m'"
      and p: "performed d calculate in_chans out_chans M (nat F) m m'"
    by blast
  have "read_sample (out_chans ! c) i (mem m') =
      Some (f (input_frame (mem m) in_chans (unat (inputcount d)) i) ! c)"
    if i: "int i < F" and c: "c < M" for i c
  proof -
    from i have "i < nat F" by simp
    with p dist c obtain s where "read_sample (out_chans ! c) i (mem m') =
        Some (scattered d
          (fst (calculate s (input_frame (mem m) in_chans (unat (inputcount d)) i))) ! c)"
      unfolding performed_def M_def by blast
    then show ?thesis
      using det[OF length_input_frame] by (simp add: scattered_def)
  qed
  with run show ?thesis unfolding M_def by blast
qed

theorem perform_generic_scatter_witness:
  "\<exists>m'. perform_generic \<lparr>input_count = 2, output_count = 2\<rparr> sum_and_difference [0, 1] [2, 3] 2
           \<lparr>mem = [0 \<mapsto> [1, 2], 1 \<mapsto> [10, 20], 2 \<mapsto> [0, 0], 3 \<mapsto> [0, 0]],
            obj = (), trace = []\<rparr> = Some m' \<and>
        read_sample 2 0 (mem m') = Some 11 \<and> read_sample 3 0 (mem m') = Some (- 9) \<and>
        read_sample 2 1 (mem m') = Some 22 \<and> read_sample 3 1 (mem m') = Some (- 18)"
proof -
  define d where "d = \<lparr>input_count = 2, output_count = 2\<rparr>"
  define m :: "(int, unit) machine"
    where "m = \<lparr>mem = [0 \<mapsto> [1, 2], 1 \<mapsto> [10, 20], 2 \<mapsto> [0, 0], 3 \<mapsto> [0, 0]],
             obj = (), trace = []\<rparr>"
  define f :: "int list \<Rightarrow> int list" where "f a = [a ! 0 + a ! 1, a ! 0 - a ! 1]" for a
  have K: "unat (inputcount d) = 2" "unat (outputcount d) = 2"
    "sint (input_count d) = 2" "sint (output_count d) = 2"
    by (simp_all add: d_def inputcount_def m_inputcount_def outputcount_def m_outputcount_def)
  have "\<exists>m'. perform_generic d sum_and_difference [0, 1] [2, 3] 2 m = Some m' \<and>
           (\<forall>i c. int i < 2 \<longrightarrow> c < unat (outputcount d) \<longrightarrow>
              read_sample ([2, 3] ! c) i (mem m') =
                Some (f (input_frame (mem m) [0, 1] (unat (inputcount d)) i) ! c))"
    by (rule perform_generic_scatter)
      (simp_all add: block_ok_def K m_def has_frames_def INT_MAX_def
        sum_and_difference_def f_def)
  then obtain m' where run: "perform_generic d sum_and_difference [0, 1] [2, 3] 2 m = Some m'"
    and out: "\<And>i c. int i < 2 \<Longrightarrow> c < 2 \<Longrightarrow> read_sample ([2, 3] ! c) i (mem m') =
       Some (f (input_frame (mem m) [0, 1] 2 i) ! c)"
    by (auto simp: K)
  have two: "[0..<2] = [0, Suc 0]"
    by (simp add: upt_rec)
  from out[of 0 0] out[of 0 1] out[of 1 0] out[of 1 1]
  have "read_sample 2 0 (mem m') = Some 11" "read_sample 3 0 (mem m') = Some (- 9)"
    "read_sample 2 1 (mem m') = Some 22" "read_sample 3 1 (mem m') = Some (- 18)"
    by (simp_all add: m_def input_frame_def read_sample_def two f_def)
  with run show ?thesis unfolding m_def d_def by blast
qed

subsection \<open>The specialisation and the generic algorithm\<close>

text \<open>
  C4. On a unit with one input and one output, the specialised \<^verbatim>\<open>perform\<close> and the
  generic one (which builds a bundle of one slot, expands it into the one argument of
  \<^verbatim>\<open>calculate\<close> and copies the sample returned) have the same outcome for every block
  with an input and an output pointer and every frame count: the same memory, so the
  same contents of \<^verbatim>\<open>out_chans[0]\<close>, the same state of the object and the same trace, or
  both are undefined.
\<close>

theorem perform_1x1_refines_generic:
  fixes m :: "('a, 's) machine"
  assumes "in_chans \<noteq> []" and "out_chans \<noteq> []"
  shows "perform_1x1 calculate in_chans out_chans F m =
         perform_generic descriptor_1x1 (unary calculate) in_chans out_chans F m"
  using assms by (rule perform_1x1_generic)

theorem perform_1x1_refines_generic_witness:
  "perform_1x1 running_sum [0] [1] 2 \<lparr>mem = [0 \<mapsto> [1, 2], 1 \<mapsto> [0, 0]], obj = 0, trace = []\<rparr> =
   perform_generic descriptor_1x1 (unary running_sum) [0] [1] 2
     \<lparr>mem = [0 \<mapsto> [1, 2], 1 \<mapsto> [0, 0]], obj = 0, trace = []\<rparr>"
  by (rule perform_1x1_refines_generic) simp_all

subsection \<open>Blocks without frames\<close>

text \<open>
  C5. With a frame count of 0, \<^verbatim>\<open>perform\<close> returns the machine state it was given: the
  memory is the same, so every output buffer is unmodified; the trace is the same, so
  no sample was read or written; and \<^verbatim>\<open>calculate\<close> was not called. This holds for the
  generic \<^verbatim>\<open>perform\<close> with any descriptor and any block, and for the specialisation
  with any block that has the two channel pointers \<^verbatim>\<open>in_chans[0]\<close> and \<^verbatim>\<open>out_chans[0]\<close>,
  which it copies before the loop.
\<close>

theorem perform_zero_frames:
  "perform_generic d calculate in_chans out_chans 0 m = Some m \<and>
   (in_chans \<noteq> [] \<longrightarrow> out_chans \<noteq> [] \<longrightarrow>
      perform_1x1 calculate1 in_chans out_chans 0 m = Some m)"
  by (simp add: perform_generic_def perform_1x1_def channel_def for_int_none)

theorem perform_zero_frames_witness:
  "perform_generic \<lparr>input_count = 2, output_count = 1\<rparr> weighted [0, 1] [2] 0
     \<lparr>mem = [0 \<mapsto> [1], 1 \<mapsto> [10], 2 \<mapsto> [7]], obj = (), trace = []\<rparr> =
   Some \<lparr>mem = [0 \<mapsto> [1], 1 \<mapsto> [10], 2 \<mapsto> [7]], obj = (), trace = []\<rparr> \<and>
   perform_1x1 twice [0, 1] [2] 0
     \<lparr>mem = [0 \<mapsto> [1], 1 \<mapsto> [10], 2 \<mapsto> [7]], obj = (), trace = []\<rparr> =
   Some \<lparr>mem = [0 \<mapsto> [1], 1 \<mapsto> [10], 2 \<mapsto> [7]], obj = (), trace = []\<rparr>"
  using perform_zero_frames [where d = "\<lparr>input_count = 2, output_count = 1\<rparr>"
      and calculate = weighted and ?calculate1.0 = twice
      and in_chans = "[0, 1]" and out_chans = "[2]"
      and m = "\<lparr>mem = [0 \<mapsto> [1], 1 \<mapsto> [10], 2 \<mapsto> [7]], obj = (), trace = []\<rparr>"]
  by simp

text \<open>
  C9. With a negative frame count both specialisations behave as with the frame count
  0: the loop body is never run, and \<^verbatim>\<open>perform\<close> returns the machine state it was given,
  with the same memory and the same trace.
\<close>

theorem perform_negative_frames:
  assumes "F < 0"
  shows "perform_generic d calculate in_chans out_chans F m = Some m \<and>
         perform_generic d calculate in_chans out_chans 0 m = Some m \<and>
         perform_1x1 calculate1 in_chans out_chans F m =
           perform_1x1 calculate1 in_chans out_chans 0 m \<and>
         (in_chans \<noteq> [] \<longrightarrow> out_chans \<noteq> [] \<longrightarrow>
            perform_1x1 calculate1 in_chans out_chans F m = Some m)"
  using assms by (simp add: perform_generic_def perform_1x1_def channel_def for_int_none)

theorem perform_negative_frames_witness:
  "perform_generic \<lparr>input_count = 2, output_count = 1\<rparr> weighted [0, 1] [2] (- 3)
     \<lparr>mem = [0 \<mapsto> [1], 1 \<mapsto> [10], 2 \<mapsto> [7]], obj = (), trace = []\<rparr> =
   Some \<lparr>mem = [0 \<mapsto> [1], 1 \<mapsto> [10], 2 \<mapsto> [7]], obj = (), trace = []\<rparr> \<and>
   perform_1x1 twice [0, 1] [2] (- 3)
     \<lparr>mem = [0 \<mapsto> [1], 1 \<mapsto> [10], 2 \<mapsto> [7]], obj = (), trace = []\<rparr> =
   Some \<lparr>mem = [0 \<mapsto> [1], 1 \<mapsto> [10], 2 \<mapsto> [7]], obj = (), trace = []\<rparr>"
proof -
  have neg: "(- 3 :: int) < 0" by simp
  note run = perform_negative_frames [OF neg,
      where d = "\<lparr>input_count = 2, output_count = 1\<rparr>"
      and calculate = weighted and ?calculate1.0 = twice
      and in_chans = "[0, 1]" and out_chans = "[2]"
      and m = "\<lparr>mem = [0 \<mapsto> [1], 1 \<mapsto> [10], 2 \<mapsto> [7]], obj = (), trace = []\<rparr>"]
  from run [THEN conjunct1] run [THEN conjunct2, THEN conjunct2, THEN conjunct2]
  show ?thesis by simp
qed

subsection \<open>Order of the accesses and calls\<close>

text \<open>
  C6. For every unit, with or without state, a run of \<^verbatim>\<open>perform\<close> on a block of \<open>F\<close>
  frames extends the trace by the events of frame 0, then of frame 1, and so on up to
  frame \<open>F - 1\<close>; the events of a frame are the reads of the input channels in
  ascending order, one call of \<^verbatim>\<open>calculate\<close>, and the writes of the output channels in
  ascending order. So \<^verbatim>\<open>calculate\<close> is called exactly once per frame, in ascending
  frame order. The arguments of the call in frame \<open>i\<close> are the input frame \<open>i\<close> of the
  block: nothing of an earlier frame is left in the bundle. The first part is the
  generic \<^verbatim>\<open>perform\<close>, the second the specialisation.
\<close>

theorem perform_order:
  fixes m :: "('a, 's) machine" and m1 :: "('b, 't) machine"
  assumes ok: "block_ok d W in_chans out_chans F (mem m)"
    and shape: "\<And>s a. length a = unat (inputcount d) \<Longrightarrow> well_shaped d W (fst (calculate s a))"
    and ok1: "block_ok descriptor_1x1 1 in_chans1 out_chans1 F1 (mem m1)"
  shows "(\<exists>m'. perform_generic d calculate in_chans out_chans F m = Some m' \<and>
            trace m' = trace m @
              concat (map (\<lambda>i. frame_events (unat (inputcount d)) W i
                        (input_frame (mem m) in_chans (unat (inputcount d)) i)) [0..<nat F]) \<and>
            calls (trace m') = calls (trace m) @ [0..<nat F]) \<and>
         (\<exists>m'. perform_1x1 calculate1 in_chans1 out_chans1 F1 m1 = Some m' \<and>
            trace m' = trace m1 @
              concat (map (\<lambda>i. frame_events 1 1 i (input_frame (mem m1) in_chans1 1 i))
                [0..<nat F1]) \<and>
            calls (trace m') = calls (trace m1) @ [0..<nat F1])"
proof
  from perform_generic_performed[where calculate = calculate, OF ok shape] obtain m'
    where "perform_generic d calculate in_chans out_chans F m = Some m'"
      and "performed d calculate in_chans out_chans W (nat F) m m'"
    by blast
  then show "\<exists>m'. perform_generic d calculate in_chans out_chans F m = Some m' \<and>
            trace m' = trace m @
              concat (map (\<lambda>i. frame_events (unat (inputcount d)) W i
                        (input_frame (mem m) in_chans (unat (inputcount d)) i)) [0..<nat F]) \<and>
            calls (trace m') = calls (trace m) @ [0..<nat F]"
    by (simp add: performed_def calls_append calls_frames)
next
  from perform_1x1_performed[OF ok1, of calculate1] obtain m'
    where "perform_1x1 calculate1 in_chans1 out_chans1 F1 m1 = Some m'"
      and "performed descriptor_1x1 (unary calculate1) in_chans1 out_chans1 1 (nat F1) m1 m'"
    by blast
  then show "\<exists>m'. perform_1x1 calculate1 in_chans1 out_chans1 F1 m1 = Some m' \<and>
            trace m' = trace m1 @
              concat (map (\<lambda>i. frame_events 1 1 i (input_frame (mem m1) in_chans1 1 i))
                [0..<nat F1]) \<and>
            calls (trace m') = calls (trace m1) @ [0..<nat F1]"
    by (simp add: performed_def calls_append calls_frames inputcount_1x1)
qed

theorem perform_order_witness:
  "(\<exists>m'. perform_generic \<lparr>input_count = 2, output_count = 1\<rparr> weighted [0, 1] [2] 2
            \<lparr>mem = [0 \<mapsto> [1, 2], 1 \<mapsto> [10, 20], 2 \<mapsto> [0, 0]], obj = (), trace = []\<rparr> =
          Some m' \<and>
          trace m' = [InRead 0 0, InRead 1 0, Calculate 0 [1, 10], OutWrite 0 0,
                      InRead 0 1, InRead 1 1, Calculate 1 [2, 20], OutWrite 0 1] \<and>
          calls (trace m') = [0, 1]) \<and>
   (\<exists>m'. perform_1x1 running_sum [0] [1] 2
            \<lparr>mem = [0 \<mapsto> [1, 2], 1 \<mapsto> [0, 0]], obj = 0, trace = []\<rparr> = Some m' \<and>
          trace m' = [InRead 0 0, Calculate 0 [1], OutWrite 0 0,
                      InRead 0 1, Calculate 1 [2], OutWrite 0 1] \<and>
          calls (trace m') = [0, 1])"
proof -
  define d where "d = \<lparr>input_count = 2, output_count = 1\<rparr>"
  define m :: "(int, unit) machine"
    where "m = \<lparr>mem = [0 \<mapsto> [1, 2], 1 \<mapsto> [10, 20], 2 \<mapsto> [0, 0]], obj = (), trace = []\<rparr>"
  define m1 :: "(int, int) machine"
    where "m1 = \<lparr>mem = [0 \<mapsto> [1, 2], 1 \<mapsto> [0, 0]], obj = 0, trace = []\<rparr>"
  have K: "unat (inputcount d) = 2" "sint (input_count d) = 2"
    by (simp_all add: d_def inputcount_def m_inputcount_def)
  have ok: "block_ok d 1 [0, 1] [2] 2 (mem m)"
    by (simp add: block_ok_def K m_def has_frames_def INT_MAX_def)
  have shape: "well_shaped d 1 (fst (weighted s a))" for s a
    by (simp add: weighted_def well_shaped_def)
  have ok1: "block_ok descriptor_1x1 1 [0] [1] 2 (mem m1)"
    by (simp add: block_ok_def inputcount_1x1 input_count_1x1 m1_def has_frames_def
        INT_MAX_def)
  have two: "[0..<2] = [0, Suc 0]"
    by (simp add: upt_rec)
  from perform_order [where calculate = weighted and ?calculate1.0 = running_sum,
      OF ok shape ok1]
  show ?thesis
    unfolding m_def [symmetric] m1_def [symmetric] d_def [symmetric]
    by (simp add: K two frame_events_def input_frame_def m_def m1_def read_sample_def)
qed

subsection \<open>What perform leaves unchanged\<close>

text \<open>
  C7 as stated fails on a block that is processed in place. With \<^verbatim>\<open>in_chans[0]\<close> and
  \<^verbatim>\<open>out_chans[0]\<close> the same buffer, holding the sample 1, and \<open>f(x) = 2 x\<close>, one frame of
  \<^verbatim>\<open>perform\<close> leaves 2 in the buffer: the input channel has been written.
\<close>

theorem perform_1x1_in_place:
  "perform_1x1 twice [0] [0] 1 \<lparr>mem = [0 \<mapsto> [1]], obj = (), trace = []\<rparr> =
     Some \<lparr>mem = [0 \<mapsto> [2]], obj = (),
           trace = [InRead 0 0, Calculate 0 [1], OutWrite 0 0]\<rparr>"
  by (simp add: perform_1x1_def channel_def for_int_one read_sample_def write_sample_def
      twice_def)

text \<open>
  C7, as amended. For a unit with one input and one output, \<^verbatim>\<open>perform\<close> on a block of
  \<open>F\<close> frames changes no buffer other than \<^verbatim>\<open>out_chans[0]\<close>, and in that buffer no sample
  at an index from \<open>F\<close> on; \<^verbatim>\<open>in_chans[0]\<close> is unchanged when it is not the same buffer as
  \<^verbatim>\<open>out_chans[0]\<close>; and the only accesses are, for each frame \<open>i\<close> below \<open>F\<close>, the read
  of \<^verbatim>\<open>in_chans[0][i]\<close> and the write of \<^verbatim>\<open>out_chans[0][i]\<close>.
\<close>

theorem perform_1x1_effects:
  fixes m :: "('a, 's) machine"
  assumes "in_chans \<noteq> []" and "out_chans \<noteq> []"
    and "has_frames (mem m) (in_chans ! 0) F" and "has_frames (mem m) (out_chans ! 0) F"
    and "F \<le> INT_MAX"
  shows "\<exists>m'. perform_1x1 calculate in_chans out_chans F m = Some m' \<and>
           (\<forall>p. p \<noteq> out_chans ! 0 \<longrightarrow> mem m' p = mem m p) \<and>
           (in_chans ! 0 \<noteq> out_chans ! 0 \<longrightarrow> mem m' (in_chans ! 0) = mem m (in_chans ! 0)) \<and>
           (\<forall>k. nat F \<le> k \<longrightarrow>
              read_sample (out_chans ! 0) k (mem m') = read_sample (out_chans ! 0) k (mem m)) \<and>
           trace m' = trace m @
             concat (map (\<lambda>i. [InRead 0 i,
                                Calculate i [the (read_sample (in_chans ! 0) i (mem m))],
                                OutWrite 0 i]) [0..<nat F])"
proof -
  have ok: "block_ok descriptor_1x1 1 in_chans out_chans F (mem m)"
    by (rule block_ok_1x1[THEN iffD2]) (simp add: assms)
  from perform_1x1_performed[OF ok, of calculate] obtain m'
    where run: "perform_1x1 calculate in_chans out_chans F m = Some m'"
      and p: "performed descriptor_1x1 (unary calculate) in_chans out_chans 1 (nat F) m m'"
    by blast
  from p have shape: "same_shape (mem m) (mem m')"
    by (simp add: performed_def)
  have same: "read_sample q k (mem m') = read_sample q k (mem m)"
    if "q \<noteq> out_chans ! 0 \<or> nat F \<le> k" for q k
    using p that assms(2) by (auto simp: performed_def take_one)
  have 1: "mem m' q = mem m q" if "q \<noteq> out_chans ! 0" for q
    using shape same that by (intro same_reads_same_buffer) simp_all
  have 2: "trace m' = trace m @
      concat (map (\<lambda>i. [InRead 0 i, Calculate i [the (read_sample (in_chans ! 0) i (mem m))],
                         OutWrite 0 i]) [0..<nat F])"
    using p by (simp add: performed_def inputcount_1x1 frame_events_def input_frame_one)
  from run 1 2 same show ?thesis by simp
qed

theorem perform_1x1_effects_witness:
  "\<exists>m'. perform_1x1 running_sum [0] [1] 2
           \<lparr>mem = [0 \<mapsto> [1, 2, 3], 1 \<mapsto> [7, 8, 9], 2 \<mapsto> [4]], obj = 0, trace = []\<rparr> =
         Some m' \<and>
        mem m' 0 = Some [1, 2, 3] \<and> mem m' 2 = Some [4] \<and>
        read_sample 1 2 (mem m') = Some 9 \<and>
        trace m' = [InRead 0 0, Calculate 0 [1], OutWrite 0 0,
                    InRead 0 1, Calculate 1 [2], OutWrite 0 1]"
proof -
  define m :: "(int, int) machine"
    where "m = \<lparr>mem = [0 \<mapsto> [1, 2, 3], 1 \<mapsto> [7, 8, 9], 2 \<mapsto> [4]], obj = 0, trace = []\<rparr>"
  have two: "[0..<2] = [0, Suc 0]"
    by (simp add: upt_rec)
  have "\<exists>m'. perform_1x1 running_sum [0] [1] 2 m = Some m' \<and>
           (\<forall>p. p \<noteq> [1] ! 0 \<longrightarrow> mem m' p = mem m p) \<and>
           ([0 :: nat] ! 0 \<noteq> [1] ! 0 \<longrightarrow> mem m' ([0] ! 0) = mem m ([0] ! 0)) \<and>
           (\<forall>k. nat 2 \<le> k \<longrightarrow>
              read_sample ([1] ! 0) k (mem m') = read_sample ([1] ! 0) k (mem m)) \<and>
           trace m' = trace m @
             concat (map (\<lambda>i. [InRead 0 i,
                                Calculate i [the (read_sample ([0] ! 0) i (mem m))],
                                OutWrite 0 i]) [0..<nat 2])"
    by (rule perform_1x1_effects) (simp_all add: m_def has_frames_def INT_MAX_def)
  then obtain m' where run: "perform_1x1 running_sum [0] [1] 2 m = Some m'"
    and a: "\<And>p. p \<noteq> 1 \<Longrightarrow> mem m' p = mem m p"
    and b: "\<And>k. 2 \<le> k \<Longrightarrow> read_sample 1 k (mem m') = read_sample 1 k (mem m)"
    and c: "trace m' = trace m @
             concat (map (\<lambda>i. [InRead 0 i, Calculate i [the (read_sample 0 i (mem m))],
                                OutWrite 0 i]) [0..<2])"
    by auto
  from a[of 0] a[of 2] b[of 2] c
  have "mem m' 0 = Some [1, 2, 3]" "mem m' 2 = Some [4]" "read_sample 1 2 (mem m') = Some 9"
    "trace m' = [InRead 0 0, Calculate 0 [1], OutWrite 0 0,
                 InRead 0 1, Calculate 1 [2], OutWrite 0 1]"
    by (simp_all add: m_def read_sample_def two)
  with run show ?thesis unfolding m_def by blast
qed

text \<open>
  C10. When no input channel of the block is the same buffer as an output channel
  that is written, the generic \<^verbatim>\<open>perform\<close> returns and every input buffer is exactly
  as the caller supplied it.
\<close>

theorem perform_generic_inputs_unchanged:
  fixes m :: "('a, 's) machine"
  assumes ok: "block_ok d W in_chans out_chans F (mem m)"
    and shape: "\<And>s a. length a = unat (inputcount d) \<Longrightarrow> well_shaped d W (fst (calculate s a))"
    and no_alias: "set (take (unat (inputcount d)) in_chans) \<inter> set (take W out_chans) = {}"
  shows "\<exists>m'. perform_generic d calculate in_chans out_chans F m = Some m' \<and>
           (\<forall>c<unat (inputcount d). mem m' (in_chans ! c) = mem m (in_chans ! c))"
proof -
  from perform_generic_performed[where calculate = calculate, OF ok shape] obtain m'
    where run: "perform_generic d calculate in_chans out_chans F m = Some m'"
      and p: "performed d calculate in_chans out_chans W (nat F) m m'"
    by blast
  from ok have len: "unat (inputcount d) \<le> length in_chans"
    by (simp add: block_ok_def)
  have "mem m' (in_chans ! c) = mem m (in_chans ! c)" if c: "c < unat (inputcount d)" for c
  proof (rule same_reads_same_buffer)
    from p show "same_shape (mem m) (mem m')"
      by (simp add: performed_def)
    from c len have "in_chans ! c \<in> set (take (unat (inputcount d)) in_chans)"
      by (metis in_set_conv_nth length_take min.absorb2 nth_take)
    with no_alias have "in_chans ! c \<notin> set (take W out_chans)" by blast
    with p show "read_sample (in_chans ! c) k (mem m') = read_sample (in_chans ! c) k (mem m)"
      for k by (simp add: performed_def)
  qed
  with run show ?thesis by blast
qed

theorem perform_generic_inputs_unchanged_witness:
  "\<exists>m'. perform_generic \<lparr>input_count = 2, output_count = 1\<rparr> weighted [0, 1] [2] 3
           \<lparr>mem = [0 \<mapsto> [1, 2, 3], 1 \<mapsto> [10, 20, 30], 2 \<mapsto> [0, 0, 0]],
            obj = (), trace = []\<rparr> = Some m' \<and>
        mem m' 0 = Some [1, 2, 3] \<and> mem m' 1 = Some [10, 20, 30]"
proof -
  define d where "d = \<lparr>input_count = 2, output_count = 1\<rparr>"
  define m :: "(int, unit) machine"
    where "m = \<lparr>mem = [0 \<mapsto> [1, 2, 3], 1 \<mapsto> [10, 20, 30], 2 \<mapsto> [0, 0, 0]],
             obj = (), trace = []\<rparr>"
  have K: "unat (inputcount d) = 2" "sint (input_count d) = 2"
    by (simp_all add: d_def inputcount_def m_inputcount_def)
  have "\<exists>m'. perform_generic d weighted [0, 1] [2] 3 m = Some m' \<and>
           (\<forall>c<unat (inputcount d). mem m' ([0, 1] ! c) = mem m ([0, 1] ! c))"
    by (rule perform_generic_inputs_unchanged[where W = 1])
      (simp_all add: block_ok_def K m_def has_frames_def INT_MAX_def weighted_def
        well_shaped_def)
  then obtain m' where run: "perform_generic d weighted [0, 1] [2] 3 m = Some m'"
    and same: "\<And>c. c < 2 \<Longrightarrow> mem m' ([0, 1] ! c) = mem m ([0, 1] ! c)"
    by (auto simp: K)
  from same[of 0] same[of 1] have "mem m' 0 = Some [1, 2, 3]" "mem m' 1 = Some [10, 20, 30]"
    by (simp_all add: m_def)
  with run show ?thesis unfolding m_def d_def by blast
qed

subsection \<open>Channel-arity descriptor\<close>

text \<open>
  C8, as amended. \<^verbatim>\<open>inputcount()\<close> and \<^verbatim>\<open>outputcount()\<close> depend on the template arguments
  alone (no state of an object or of the machine enters them), so they are constants
  of the compute-unit type. They return the declared \<^verbatim>\<open>int\<close> converted to \<^verbatim>\<open>size_t\<close>,
  that is its value modulo \<open>2 ^ 64\<close>: exactly the declared count when that is not
  negative, and always a value that is not negative.
\<close>

theorem sample_operator_counts:
  "uint (inputcount d) = sint (input_count d) mod 2 ^ 64 \<and>
   uint (outputcount d) = sint (output_count d) mod 2 ^ 64 \<and>
   (0 \<le> sint (input_count d) \<longrightarrow> uint (inputcount d) = sint (input_count d)) \<and>
   (0 \<le> sint (output_count d) \<longrightarrow> uint (outputcount d) = sint (output_count d)) \<and>
   0 \<le> uint (inputcount d) \<and> 0 \<le> uint (outputcount d)"
  unfolding inputcount_def outputcount_def m_inputcount_def m_outputcount_def
  using uint_scast_32_64 uint_scast_nonneg by simp

theorem sample_operator_counts_witness:
  "uint (inputcount \<lparr>input_count = 3, output_count = 2\<rparr>) = 3 \<and>
   uint (outputcount \<lparr>input_count = 3, output_count = 2\<rparr>) = 2"
  using sample_operator_counts [of "\<lparr>input_count = 3, output_count = 2\<rparr>"] by simp

text \<open>
  C8 as stated fails for \<^verbatim>\<open>sample_operator<-1, 1>\<close>: the declared input count is \<open>- 1\<close>
  and \<^verbatim>\<open>inputcount()\<close> returns \<open>2 ^ 64 - 1\<close>.
\<close>

theorem sample_operator_negative_count:
  "sint (input_count \<lparr>input_count = - 1, output_count = 1\<rparr>) = - 1 \<and>
   uint (inputcount \<lparr>input_count = - 1, output_count = 1\<rparr>) = 18446744073709551615"
  using uint_scast_32_64 [of "- 1"] by (simp add: inputcount_def m_inputcount_def)

end
